theory Spec2Isabelle
  imports Main "HOL-Library.Word"
begin

section \<open>JavaScript strings and values\<close>

text \<open>
  The server (\<^verbatim>\<open>server.js\<close>, an Express application) works on JavaScript strings, which
  are sequences of 16-bit UTF-16 code units: \<^verbatim>\<open>slice\<close> and \<^verbatim>\<open>length\<close> count code units,
  and every character matched by the regular expression \<^verbatim>\<open>\s\<close> is a single code unit.
\<close>

type_synonym jschar = "16 word"
type_synonym jsstring = "jschar list"

definition ascii :: "string \<Rightarrow> jsstring" where
  "ascii s = map of_char s"

text \<open>
  The characters matched by \<^verbatim>\<open>\s\<close> and stripped by \<^verbatim>\<open>String.prototype.trim\<close>:
  ECMAScript's WhiteSpace (TAB, VT, FF, ZWNBSP and the category Zs) and LineTerminator
  (LF, CR, LS, PS).
\<close>

definition is_ws :: "jschar \<Rightarrow> bool" where
  "is_ws c \<longleftrightarrow> c \<in> {0x09, 0x0A, 0x0B, 0x0C, 0x0D, 0x20, 0xA0, 0x1680,
      0x2000, 0x2001, 0x2002, 0x2003, 0x2004, 0x2005, 0x2006, 0x2007, 0x2008, 0x2009, 0x200A,
      0x2028, 0x2029, 0x202F, 0x205F, 0x3000, 0xFEFF}"

text \<open>
  The values a parsed request body can hold. A number is represented by its canonical
  rendering \<^verbatim>\<open>String(n)\<close>: the code only ever tests a number for truthiness and converts it
  to a string, and a number is falsy exactly when it renders as \<^verbatim>\<open>0\<close> (plus or minus
  zero) or \<^verbatim>\<open>NaN\<close>. An object is the list of its own properties.
\<close>

datatype jsval =
    JUndefined
  | JNull
  | JBool bool
  | JNum jsstring
  | JStr jsstring
  | JArr "jsval list"
  | JObj "(jsstring \<times> jsval) list"

datatype js_error = TypeError | FsError

text \<open>Truthiness, as tested by \<^verbatim>\<open>!v\<close> and \<^verbatim>\<open>!!v\<close>.\<close>

fun truthy :: "jsval \<Rightarrow> bool" where
  "truthy JUndefined = False"
| "truthy JNull = False"
| "truthy (JBool b) = b"
| "truthy (JNum r) = (r \<noteq> ascii ''0'' \<and> r \<noteq> ascii ''NaN'')"
| "truthy (JStr s) = (s \<noteq> [])"
| "truthy (JArr vs) = True"
| "truthy (JObj kvs) = True"

fun nullish :: "jsval \<Rightarrow> bool" where
  "nullish JUndefined = True"
| "nullish JNull = True"
| "nullish v = False"

text \<open>
  \<^verbatim>\<open>String(v)\<close>. An array is joined with commas, null and undefined elements rendering
  as the empty string. A plain object renders through \<^verbatim>\<open>Object.prototype.toString\<close>
  unless it has an own property \<^verbatim>\<open>toString\<close>: a value parsed from JSON is never callable,
  \<^verbatim>\<open>Object.prototype.valueOf\<close> returns the object itself, and the conversion to a
  primitive throws a TypeError.
\<close>

fun js_String :: "jsval \<Rightarrow> js_error + jsstring"
  and array_join :: "jsval list \<Rightarrow> js_error + jsstring" where
  "js_String JUndefined = Inr (ascii ''undefined'')"
| "js_String JNull = Inr (ascii ''null'')"
| "js_String (JBool b) = Inr (ascii (if b then ''true'' else ''false''))"
| "js_String (JNum r) = Inr r"
| "js_String (JStr s) = Inr s"
| "js_String (JArr vs) = array_join vs"
| "js_String (JObj kvs) =
     (if ascii ''toString'' \<in> fst ` set kvs then Inl TypeError
      else Inr (ascii ''[object Object]''))"
| "array_join [] = Inr []"
| "array_join (v # vs) =
     (case (if nullish v then Inr [] else js_String v) of
        Inl e \<Rightarrow> Inl e
      | Inr s \<Rightarrow>
          (case vs of
             [] \<Rightarrow> Inr s
           | _ # _ \<Rightarrow>
               (case array_join vs of
                  Inl e \<Rightarrow> Inl e
                | Inr t \<Rightarrow> Inr (s @ ascii '','' @ t))))"

section \<open>The sanitizer\<close>

text \<open>
  \<^verbatim>\<open>const safe = (v, max = 2000) => String(v ?? "").replace(/\s+/g, " ").trim().slice(0, max);\<close>

  \<open>replace_ws\<close> is \<^verbatim>\<open>.replace(/\s+/g, " ")\<close>: scanning from the left, every maximal run
  of whitespace becomes one space. \<open>trim\<close> is \<^verbatim>\<open>.trim()\<close>. \<open>slice0\<close> is
  \<^verbatim>\<open>.slice(0, max)\<close> for the non-negative integer literals the handler passes
  (80, 120, 200, 2000).
\<close>

function replace_ws :: "jsstring \<Rightarrow> jsstring" where
  "replace_ws [] = []"
| "replace_ws (c # cs) =
     (if is_ws c then 0x20 # replace_ws (dropWhile is_ws cs) else c # replace_ws cs)"
  by pat_completeness auto
termination
  by (relation "measure length") (auto simp: le_imp_less_Suc length_dropWhile_le)

definition trim :: "jsstring \<Rightarrow> jsstring" where
  "trim s = rev (dropWhile is_ws (rev (dropWhile is_ws s)))"

definition slice0 :: "jsstring \<Rightarrow> nat \<Rightarrow> jsstring" where
  "slice0 s mx = take mx s"

definition safe_str :: "jsstring \<Rightarrow> nat \<Rightarrow> jsstring" where
  "safe_str s mx = slice0 (trim (replace_ws s)) mx"

definition coerce :: "jsval \<Rightarrow> js_error + jsstring" where
  "coerce v = js_String (if nullish v then JStr [] else v)"

definition safe :: "jsval \<Rightarrow> nat \<Rightarrow> js_error + jsstring" where
  "safe v mx = (case coerce v of Inl e \<Rightarrow> Inl e | Inr s \<Rightarrow> Inr (safe_str s mx))"

text \<open>
  A string is \<open>collapsed\<close> when its only whitespace characters are single spaces, no two
  of them adjacent: the shape \<open>replace_ws\<close> produces.
\<close>

fun collapsed :: "jsstring \<Rightarrow> bool" where
  "collapsed [] = True"
| "collapsed [c] = (is_ws c \<longrightarrow> c = 0x20)"
| "collapsed (c # d # cs) = ((is_ws c \<longrightarrow> c = 0x20 \<and> \<not> is_ws d) \<and> collapsed (d # cs))"

section \<open>The identifier generator\<close>

text \<open>
  \<^verbatim>\<open>return "lead_" + Math.random().toString(16).slice(2) + Date.now().toString(16);\<close>

  \<open>toString16\<close> is \<^verbatim>\<open>Number.prototype.toString(16)\<close> on an integer: lower-case digits,
  a minus sign for a negative number. The rendering of the random number is an input of
  the model (the digits a JavaScript engine prints for a fraction in radix 16 are
  implementation-approximated): \<^verbatim>\<open>0\<close> for zero, otherwise \<^verbatim>\<open>0.\<close> followed by
  hexadecimal digits.
\<close>

definition hex_digit :: "nat \<Rightarrow> jschar" where
  "hex_digit d = (if d < 10 then 0x30 + of_nat d else 0x57 + of_nat d)"

function hex_digits :: "nat \<Rightarrow> jsstring" where
  "hex_digits n = (if n < 16 then [hex_digit n] else hex_digits (n div 16) @ [hex_digit (n mod 16)])"
  by pat_completeness auto
termination
  by (relation "measure id") auto

declare hex_digits.simps [simp del]

definition toString16 :: "int \<Rightarrow> jsstring" where
  "toString16 i = (if i < 0 then 0x2D # hex_digits (nat (- i)) else hex_digits (nat i))"

definition generateId :: "jsstring \<Rightarrow> int \<Rightarrow> jsstring" where
  "generateId rnd now = ascii ''lead_'' @ drop 2 rnd @ toString16 now"

definition is_hex :: "jschar \<Rightarrow> bool" where
  "is_hex c \<longleftrightarrow> (0x30 \<le> c \<and> c \<le> 0x39) \<or> (0x61 \<le> c \<and> c \<le> 0x66)"

definition hex_val :: "jschar \<Rightarrow> nat" where
  "hex_val c = (if c \<le> 0x39 then unat c - 0x30 else unat c - 0x57)"

definition hex_value :: "jsstring \<Rightarrow> nat" where
  "hex_value s = foldl (\<lambda>a c. 16 * a + hex_val c) 0 s"

text \<open>The renderings \<^verbatim>\<open>Math.random().toString(16)\<close> can produce, with the digits after the point.\<close>

definition random_rendering :: "jsstring \<Rightarrow> jsstring \<Rightarrow> bool" where
  "random_rendering rnd ds \<longleftrightarrow>
     list_all is_hex ds \<and> (if ds = [] then rnd = ascii ''0'' else rnd = ascii ''0.'' @ ds)"

section \<open>Requests, responses and the server state\<close>

datatype http_method = GET | POST | OTHER

record request =
  http_method :: http_method
  path :: jsstring
  x_forwarded_for :: "jsstring option"
  remoteAddress :: "jsstring option"
  body :: jsval

text \<open>
  A response is \<^verbatim>\<open>res.status(n).json({ok: true})\<close> or
  \<^verbatim>\<open>res.status(n).json({ok: false, error: msg})\<close>; \<open>Uncaught\<close> is an exception that leaves
  the handler (Express answers it with its default error page); \<open>Passed\<close> is a request
  that reaches the routes after the lead endpoint (health check, static files, fallback
  page), none of which touches the state modelled here.
\<close>

datatype resp_body = OkBody | ErrBody jsstring

datatype response = Json nat resp_body | Uncaught js_error | Passed

text \<open>
  What a request reads from its environment: the clock in the rate limiter, the random
  number and the clock in \<open>generateId\<close>, the timestamp \<^verbatim>\<open>new Date().toISOString()\<close>, and
  whether \<^verbatim>\<open>fs.mkdirSync\<close> and \<^verbatim>\<open>fs.appendFile\<close> succeed.
\<close>

record env =
  mw_now :: int
  random16 :: jsstring
  id_now :: int
  created_iso :: jsstring
  mkdir_ok :: bool
  append_ok :: bool

text \<open>
  The state: the map \<^verbatim>\<open>lastHitByIp\<close>, whether the directory \<^verbatim>\<open>data\<close> exists, and the
  text of \<^verbatim>\<open>data/leads.jsonl\<close> (empty while the file does not exist).
\<close>

record server =
  lastHitByIp :: "jsstring \<rightharpoonup> int"
  dir_exists :: bool
  leads_file :: jsstring

record lead =
  lead_id :: jsstring
  createdAt :: jsstring
  industry :: jsstring
  problem :: jsstring
  tools :: jsstring
  message :: jsstring
  contact :: jsstring
  website :: jsstring
  wantsMvp :: bool
  wantsAutomation :: bool

definition too_fast_msg :: jsstring where
  "too_fast_msg = ascii ''Za szybko. Spr'' @ [0xF3] @ ascii ''buj za chwil'' @ [0x119] @ ascii ''.''"

definition missing_msg :: jsstring where
  "missing_msg = ascii ''Uzupe'' @ [0x142] @ ascii ''nij: bran'' @ [0x17C]
     @ ascii ''a, problem, opis, kontakt.''"

definition server_error_msg :: jsstring where
  "server_error_msg = ascii ''B'' @ [0x142, 0x105] @ ascii ''d serwera. Spr'' @ [0xF3]
     @ ascii ''buj p'' @ [0xF3, 0x17A] @ ascii ''niej.''"

section \<open>The rate limiter\<close>

text \<open>
  \<^verbatim>\<open>
  app.use((req, res, next) => {
    if (!req.path.startsWith("/api/")) return next();
    const ip = req.headers["x-forwarded-for"]?.split(",")[0]?.trim()
               || req.socket.remoteAddress || "unknown";
    const now = Date.now();
    const last = lastHitByIp.get(ip) || 0;
    if (now - last < 3000) {
      return res.status(429).json({ ok: false, error: "Za szybko. ..." });
    }
    lastHitByIp.set(ip, now);
    next();
  });
  \<close>
  The middleware returns the map and either a response (the request ends there) or
  \<open>None\<close> for \<^verbatim>\<open>next()\<close>.
\<close>

definition startsWith :: "jsstring \<Rightarrow> jsstring \<Rightarrow> bool" where
  "startsWith s p \<longleftrightarrow> take (length p) s = p"

definition or_else :: "jsstring option \<Rightarrow> jsstring option \<Rightarrow> jsstring option" where
  "or_else a b = (case a of Some s \<Rightarrow> (if s \<noteq> [] then Some s else b) | None \<Rightarrow> b)"

definition client_ip :: "request \<Rightarrow> jsstring" where
  "client_ip req =
     (case or_else
             (or_else (map_option (\<lambda>h. trim (takeWhile (\<lambda>c. c \<noteq> 0x2C) h)) (x_forwarded_for req))
                      (remoteAddress req))
             (Some (ascii ''unknown'')) of
        Some s \<Rightarrow> s
      | None \<Rightarrow> ascii ''unknown'')"

definition last_hit :: "(jsstring \<rightharpoonup> int) \<Rightarrow> jsstring \<Rightarrow> int" where
  "last_hit m ip = (case m ip of None \<Rightarrow> 0 | Some t \<Rightarrow> (if t = 0 then 0 else t))"

definition rate_limit ::
  "(jsstring \<rightharpoonup> int) \<Rightarrow> request \<Rightarrow> int \<Rightarrow> (jsstring \<rightharpoonup> int) \<times> response option" where
  "rate_limit m req now =
     (if \<not> startsWith (path req) (ascii ''/api/'') then (m, None)
      else
        let ip = client_ip req;
            last = last_hit m ip
        in if now - last < 3000 then (m, Some (Json 429 (ErrBody too_fast_msg)))
           else (m(ip \<mapsto> now), None))"

section \<open>The lead store and the endpoint\<close>

text \<open>
  \<^verbatim>\<open>JSON.stringify(lead)\<close>: the properties in insertion order, strings quoted by
  QuoteJSONString (the two-character escapes, \<^verbatim>\<open>\uXXXX\<close> for the other control characters
  and for lone surrogates, a surrogate pair copied as it is), booleans as \<^verbatim>\<open>true\<close> and
  \<^verbatim>\<open>false\<close>.
\<close>

definition hex4 :: "jschar \<Rightarrow> jsstring" where
  "hex4 c = [hex_digit (unat c div 4096), hex_digit (unat c div 256 mod 16),
             hex_digit (unat c div 16 mod 16), hex_digit (unat c mod 16)]"

definition is_high_surrogate :: "jschar \<Rightarrow> bool" where
  "is_high_surrogate c \<longleftrightarrow> 0xD800 \<le> c \<and> c \<le> 0xDBFF"

definition is_low_surrogate :: "jschar \<Rightarrow> bool" where
  "is_low_surrogate c \<longleftrightarrow> 0xDC00 \<le> c \<and> c \<le> 0xDFFF"

definition escape_unit :: "jschar \<Rightarrow> jsstring" where
  "escape_unit c =
     (if c = 0x08 then [0x5C, 0x62]
      else if c = 0x09 then [0x5C, 0x74]
      else if c = 0x0A then [0x5C, 0x6E]
      else if c = 0x0C then [0x5C, 0x66]
      else if c = 0x0D then [0x5C, 0x72]
      else if c = 0x22 then [0x5C, 0x22]
      else if c = 0x5C then [0x5C, 0x5C]
      else if c < 0x20 \<or> is_high_surrogate c \<or> is_low_surrogate c then [0x5C, 0x75] @ hex4 c
      else [c])"

fun quote_units :: "jsstring \<Rightarrow> jsstring" where
  "quote_units [] = []"
| "quote_units [c] = escape_unit c"
| "quote_units (c # d # cs) =
     (if is_high_surrogate c \<and> is_low_surrogate d then c # d # quote_units cs
      else escape_unit c @ quote_units (d # cs))"

definition json_quote :: "jsstring \<Rightarrow> jsstring" where
  "json_quote s = [0x22] @ quote_units s @ [0x22]"

definition json_bool :: "bool \<Rightarrow> jsstring" where
  "json_bool b = ascii (if b then ''true'' else ''false'')"

definition json_key :: "string \<Rightarrow> jsstring" where
  "json_key k = [0x22] @ ascii k @ [0x22, 0x3A]"

definition JSON_stringify :: "lead \<Rightarrow> jsstring" where
  "JSON_stringify l =
     [0x7B] @ json_key ''id'' @ json_quote (lead_id l)
     @ [0x2C] @ json_key ''createdAt'' @ json_quote (createdAt l)
     @ [0x2C] @ json_key ''industry'' @ json_quote (industry l)
     @ [0x2C] @ json_key ''problem'' @ json_quote (problem l)
     @ [0x2C] @ json_key ''tools'' @ json_quote (tools l)
     @ [0x2C] @ json_key ''message'' @ json_quote (message l)
     @ [0x2C] @ json_key ''contact'' @ json_quote (contact l)
     @ [0x2C] @ json_key ''website'' @ json_quote (website l)
     @ [0x2C] @ json_key ''wantsMvp'' @ json_bool (wantsMvp l)
     @ [0x2C] @ json_key ''wantsAutomation'' @ json_bool (wantsAutomation l)
     @ [0x7D]"

text \<open>
  Reading a stored line back, as \<^verbatim>\<open>JSON.parse\<close> does on a text of the shape
  \<^verbatim>\<open>JSON.stringify(lead)\<close> writes: the ten members in their order, no insignificant
  whitespace, string literals with the escapes of JSON (the digits of \<^verbatim>\<open>\uXXXX\<close> in
  lower case) and no raw control character.
\<close>

definition unescape :: "jschar \<Rightarrow> jschar option" where
  "unescape e =
     (if e = 0x62 then Some 0x08
      else if e = 0x74 then Some 0x09
      else if e = 0x6E then Some 0x0A
      else if e = 0x66 then Some 0x0C
      else if e = 0x72 then Some 0x0D
      else if e = 0x22 then Some 0x22
      else if e = 0x5C then Some 0x5C
      else if e = 0x2F then Some 0x2F
      else None)"

definition unhex4 :: "jschar \<Rightarrow> jschar \<Rightarrow> jschar \<Rightarrow> jschar \<Rightarrow> jschar" where
  "unhex4 a b c d = of_nat (4096 * hex_val a + 256 * hex_val b + 16 * hex_val c + hex_val d)"

fun read_units :: "jsstring \<Rightarrow> (jsstring \<times> jsstring) option" where
  "read_units [] = None"
| "read_units (c # cs) =
     (if c = 0x22 then Some ([], cs)
      else if c = 0x5C then
        (case cs of
           [] \<Rightarrow> None
         | e # r \<Rightarrow>
             if e = 0x75 then
               (case r of
                  h1 # h2 # h3 # h4 # r' \<Rightarrow>
                    (if is_hex h1 \<and> is_hex h2 \<and> is_hex h3 \<and> is_hex h4
                     then map_option (apfst ((#) (unhex4 h1 h2 h3 h4))) (read_units r')
                     else None)
                | _ \<Rightarrow> None)
             else
               (case unescape e of
                  None \<Rightarrow> None
                | Some u \<Rightarrow> map_option (apfst ((#) u)) (read_units r)))
      else if c < 0x20 then None
      else map_option (apfst ((#) c)) (read_units cs))"

definition read_string :: "jsstring \<Rightarrow> (jsstring \<times> jsstring) option" where
  "read_string s = (case s of [] \<Rightarrow> None | c # r \<Rightarrow> if c = 0x22 then read_units r else None)"

definition read_bool :: "jsstring \<Rightarrow> (bool \<times> jsstring) option" where
  "read_bool s =
     (if take 4 s = ascii ''true'' then Some (True, drop 4 s)
      else if take 5 s = ascii ''false'' then Some (False, drop 5 s)
      else None)"

definition expect :: "jsstring \<Rightarrow> jsstring \<Rightarrow> jsstring option" where
  "expect p s = (if take (length p) s = p then Some (drop (length p) s) else None)"

definition read_member :: "jschar \<Rightarrow> string \<Rightarrow> jsstring \<Rightarrow> (jsstring \<times> jsstring) option" where
  "read_member sep k s =
     (case expect ([sep] @ json_key k) s of None \<Rightarrow> None | Some r \<Rightarrow> read_string r)"

definition read_flag :: "jschar \<Rightarrow> string \<Rightarrow> jsstring \<Rightarrow> (bool \<times> jsstring) option" where
  "read_flag sep k s =
     (case expect ([sep] @ json_key k) s of None \<Rightarrow> None | Some r \<Rightarrow> read_bool r)"

fun read_members :: "string list \<Rightarrow> jschar \<Rightarrow> jsstring \<Rightarrow> (jsstring list \<times> jsstring) option" where
  "read_members [] sep s = Some ([], s)"
| "read_members (k # ks) sep s =
     (case read_member sep k s of
        None \<Rightarrow> None
      | Some (v, r) \<Rightarrow> map_option (apfst ((#) v)) (read_members ks 0x2C r))"

definition read_lead :: "jsstring \<Rightarrow> lead option" where
  "read_lead s =
     (case read_members [''id'', ''createdAt'', ''industry'', ''problem'', ''tools'', ''message'',
             ''contact'', ''website''] 0x7B s of
        None \<Rightarrow> None
      | Some (vs, r) \<Rightarrow>
          (case read_flag 0x2C ''wantsMvp'' r of
             None \<Rightarrow> None
           | Some (wm, r') \<Rightarrow>
               (case read_flag 0x2C ''wantsAutomation'' r' of
                  None \<Rightarrow> None
                | Some (wa, r'') \<Rightarrow>
                    if r'' = [0x7D] \<and> length vs = 8
                    then Some \<lparr> lead_id = vs ! 0, createdAt = vs ! 1, industry = vs ! 2,
                           problem = vs ! 3, tools = vs ! 4, message = vs ! 5, contact = vs ! 6,
                           website = vs ! 7, wantsMvp = wm, wantsAutomation = wa \<rparr>
                    else None)))"

text \<open>
  \<^verbatim>\<open>const { industry, problem, ... } = req.body || {};\<close> A body that is not an object has
  none of these properties.
\<close>

definition get_field :: "jsval \<Rightarrow> string \<Rightarrow> jsval" where
  "get_field b k =
     (case b of
        JObj kvs \<Rightarrow> (case map_of kvs (ascii k) of Some v \<Rightarrow> v | None \<Rightarrow> JUndefined)
      | _ \<Rightarrow> JUndefined)"

definition required_ok :: "jsval \<Rightarrow> bool" where
  "required_ok b \<longleftrightarrow>
     \<not> (\<not> truthy (get_field b ''industry'') \<or> \<not> truthy (get_field b ''problem'')
        \<or> \<not> truthy (get_field b ''message'') \<or> \<not> truthy (get_field b ''contact''))"

text \<open>The object literal \<^verbatim>\<open>lead\<close>; a \<^verbatim>\<open>safe\<close> that throws ends the construction.\<close>

definition build_lead :: "env \<Rightarrow> jsval \<Rightarrow> js_error + lead" where
  "build_lead e b =
     (case safe (get_field b ''industry'') 80 of Inl x \<Rightarrow> Inl x | Inr i \<Rightarrow>
      case safe (get_field b ''problem'') 120 of Inl x \<Rightarrow> Inl x | Inr p \<Rightarrow>
      case safe (get_field b ''tools'') 200 of Inl x \<Rightarrow> Inl x | Inr t \<Rightarrow>
      case safe (get_field b ''message'') 2000 of Inl x \<Rightarrow> Inl x | Inr m \<Rightarrow>
      case safe (get_field b ''contact'') 120 of Inl x \<Rightarrow> Inl x | Inr c \<Rightarrow>
      case safe (get_field b ''website'') 200 of Inl x \<Rightarrow> Inl x | Inr w \<Rightarrow>
        Inr \<lparr> lead_id = generateId (random16 e) (id_now e),
              createdAt = created_iso e,
              industry = i, problem = p, tools = t, message = m, contact = c, website = w,
              wantsMvp = truthy (get_field b ''wantsMvp''),
              wantsAutomation = truthy (get_field b ''wantsAutomation'') \<rparr>)"

text \<open>
  The handler of \<^verbatim>\<open>app.post("/api/lead", ...)\<close>: validation, the record, the directory,
  the append and its callback. A failed append is taken to leave the file as it was.
\<close>

definition lead_handler :: "server \<Rightarrow> env \<Rightarrow> jsval \<Rightarrow> server \<times> response" where
  "lead_handler s e b =
     (if \<not> required_ok b then (s, Json 400 (ErrBody missing_msg))
      else
        case build_lead e b of
          Inl x \<Rightarrow> (s, Uncaught x)
        | Inr l \<Rightarrow>
            if \<not> dir_exists s \<and> \<not> mkdir_ok e then (s, Uncaught FsError)
            else
              let s1 = s\<lparr>dir_exists := True\<rparr>
              in if append_ok e
                 then (s1\<lparr>leads_file := leads_file s1 @ JSON_stringify l @ [0x0A]\<rparr>,
                       Json 200 OkBody)
                 else (s1, Json 500 (ErrBody server_error_msg)))"

text \<open>
  Express matches the route \<^verbatim>\<open>/api/lead\<close> with its defaults: letter case is ignored and
  one trailing slash is allowed.
\<close>

definition to_lower :: "jschar \<Rightarrow> jschar" where
  "to_lower c = (if 0x41 \<le> c \<and> c \<le> 0x5A then c + 0x20 else c)"

definition lead_route :: "jsstring \<Rightarrow> bool" where
  "lead_route p \<longleftrightarrow> map to_lower p = ascii ''/api/lead'' \<or> map to_lower p = ascii ''/api/lead/''"

text \<open>The application: the rate limiter, then the routes.\<close>

definition app :: "server \<Rightarrow> env \<Rightarrow> request \<Rightarrow> server \<times> response" where
  "app s e req =
     (case rate_limit (lastHitByIp s) req (mw_now e) of
        (m, Some r) \<Rightarrow> (s\<lparr>lastHitByIp := m\<rparr>, r)
      | (m, None) \<Rightarrow>
          if http_method req = POST \<and> lead_route (path req)
          then lead_handler (s\<lparr>lastHitByIp := m\<rparr>) e (body req)
          else (s\<lparr>lastHitByIp := m\<rparr>, Passed))"

text \<open>The field constraints of a stored record that the length table gives.\<close>

definition within_limits :: "lead \<Rightarrow> bool" where
  "within_limits l \<longleftrightarrow>
     length (industry l) \<le> 80 \<and> length (problem l) \<le> 120 \<and> length (tools l) \<le> 200
     \<and> length (message l) \<le> 2000 \<and> length (contact l) \<le> 120 \<and> length (website l) \<le> 200"

text \<open>The string fields of a submission, and the values \<^verbatim>\<open>String(v ?? "")\<close> accepts.\<close>

definition string_fields :: "string list" where
  "string_fields = [''industry'', ''problem'', ''tools'', ''message'', ''contact'', ''website'']"

definition coercible :: "jsval \<Rightarrow> bool" where
  "coercible v \<longleftrightarrow> (case coerce v of Inl x \<Rightarrow> False | Inr s \<Rightarrow> True)"

section \<open>Example inputs\<close>

text \<open>
  A clock reading, a random number and a file system that works; a server that has just
  started; a submission with the four required fields, its \<^verbatim>\<open>industry\<close> and any further
  properties left open; the request that posts it; the record the handler builds from it.
\<close>

definition example_env :: env where
  "example_env = \<lparr> mw_now = 1700000000000, random16 = ascii ''0.8f3a'', id_now = 1700000000000,
     created_iso = ascii ''2023-11-14T22:13:20.000Z'', mkdir_ok = True, append_ok = True \<rparr>"

definition fresh_server :: server where
  "fresh_server = \<lparr> lastHitByIp = Map.empty, dir_exists = False, leads_file = [] \<rparr>"

definition lead_body :: "jsval \<Rightarrow> (jsstring \<times> jsval) list \<Rightarrow> jsval" where
  "lead_body v extra = JObj ([(ascii ''industry'', v), (ascii ''problem'', JStr (ascii ''Brak czasu'')),
     (ascii ''message'', JStr (ascii ''Pomocy'')), (ascii ''contact'', JStr (ascii ''jan@x.pl''))]
     @ extra)"

definition lead_request :: "jsval \<Rightarrow> request" where
  "lead_request b = \<lparr> http_method = POST, path = ascii ''/api/lead'', x_forwarded_for = None,
     remoteAddress = Some (ascii ''1.2.3.4''), body = b \<rparr>"

definition example_lead :: "jsstring \<Rightarrow> bool \<Rightarrow> lead" where
  "example_lead i w = \<lparr> lead_id = generateId (ascii ''0.8f3a'') 1700000000000,
     createdAt = ascii ''2023-11-14T22:13:20.000Z'', industry = i,
     problem = ascii ''Brak czasu'', tools = [], message = ascii ''Pomocy'',
     contact = ascii ''jan@x.pl'', website = [], wantsMvp = w, wantsAutomation = False \<rparr>"

definition wants_false :: "(jsstring \<times> jsval) list" where
  "wants_false = [(ascii ''wantsMvp'', JStr (ascii ''false''))]"

definition health_request :: request where
  "health_request = \<lparr> http_method = GET, path = ascii ''/health'', x_forwarded_for = None,
     remoteAddress = Some (ascii ''1.2.3.4''), body = JUndefined \<rparr>"

section \<open>Properties of the sanitizer\<close>

lemma is_ws_space: "is_ws 0x20"
  by (simp add: is_ws_def)

lemma collapsed_Cons:
  "collapsed (c # cs) \<longleftrightarrow>
     (is_ws c \<longrightarrow> c = 0x20 \<and> (cs = [] \<or> \<not> is_ws (hd cs))) \<and> collapsed cs"
  by (cases cs) auto

lemma collapsed_ws_space: "collapsed s \<Longrightarrow> is_ws c \<Longrightarrow> c \<in> set s \<Longrightarrow> c = 0x20"
  by (induction s rule: collapsed.induct) auto

lemma replace_ws_hd: "replace_ws s \<noteq> [] \<Longrightarrow> is_ws (hd (replace_ws s)) \<longleftrightarrow> is_ws (hd s)"
  by (cases s) (auto simp: is_ws_space)

lemma replace_ws_Nil: "replace_ws s = [] \<longleftrightarrow> s = []"
  by (cases s) auto

lemma hd_dropWhile_ws: "dropWhile is_ws cs \<noteq> [] \<Longrightarrow> \<not> is_ws (hd (dropWhile is_ws cs))"
  using hd_dropWhile by blast

lemma collapsed_replace_ws: "collapsed (replace_ws s)"
proof (induction s rule: replace_ws.induct)
  case 1
  show ?case by simp
next
  case (2 c cs)
  show ?case
  proof (cases "is_ws c")
    case True
    let ?r = "dropWhile is_ws cs"
    have "replace_ws ?r = [] \<or> \<not> is_ws (hd (replace_ws ?r))"
      using replace_ws_hd [of ?r] hd_dropWhile_ws [of cs] by (auto simp: replace_ws_Nil)
    with True 2 show ?thesis by (simp add: collapsed_Cons)
  next
    case False
    with 2 show ?thesis by (simp add: collapsed_Cons)
  qed
qed

lemma replace_ws_collapsed: "collapsed s \<Longrightarrow> replace_ws s = s"
proof (induction s rule: collapsed.induct)
  case 1
  show ?case by simp
next
  case (2 c)
  then show ?case by simp
next
  case (3 c d cs)
  then show ?case by auto
qed

lemma collapsed_take: "collapsed s \<Longrightarrow> collapsed (take n s)"
proof (induction s arbitrary: n rule: collapsed.induct)
  case 1
  show ?case by simp
next
  case (2 c)
  then show ?case by (cases n) auto
next
  case (3 c d cs)
  show ?case
  proof (cases n)
    case 0
    then show ?thesis by simp
  next
    case (Suc m)
    show ?thesis
    proof (cases m)
      case 0
      with Suc 3 show ?thesis by simp
    next
      case (Suc k)
      from 3 have "collapsed (take m (d # cs))" by simp
      with 3 Suc \<open>n = Suc m\<close> show ?thesis by simp
    qed
  qed
qed

lemma collapsed_dropWhile: "collapsed s \<Longrightarrow> collapsed (dropWhile P s)"
proof (induction s)
  case Nil
  show ?case by simp
next
  case (Cons c cs)
  then show ?case by (auto simp: collapsed_Cons)
qed

lemma trim_end_take: "rev (dropWhile P (rev s)) = take (length (dropWhile P (rev s))) s"
proof -
  have "s = rev (dropWhile P (rev s)) @ rev (takeWhile P (rev s))"
    by (metis rev_append rev_rev_ident takeWhile_dropWhile_id)
  then show ?thesis
    by (metis append_eq_conv_conj length_rev)
qed

lemma collapsed_trim: "collapsed s \<Longrightarrow> collapsed (trim s)"
  unfolding trim_def by (subst trim_end_take) (simp add: collapsed_take collapsed_dropWhile)

lemma collapsed_safe_str: "collapsed (safe_str x n)"
  by (simp add: safe_str_def slice0_def collapsed_take collapsed_trim collapsed_replace_ws)

lemma trim_hd: "trim s \<noteq> [] \<Longrightarrow> \<not> is_ws (hd (trim s))"
proof -
  assume ne: "trim s \<noteq> []"
  let ?d = "dropWhile is_ws s"
  have "trim s = take (length (dropWhile is_ws (rev ?d))) ?d"
    unfolding trim_def by (rule trim_end_take)
  with ne have "hd (trim s) = hd ?d" and "?d \<noteq> []"
    by (auto simp: hd_take)
  then show ?thesis using hd_dropWhile_ws by simp
qed

lemma trim_last: "trim s \<noteq> [] \<Longrightarrow> \<not> is_ws (last (trim s))"
proof -
  assume ne: "trim s \<noteq> []"
  then have "dropWhile is_ws (rev (dropWhile is_ws s)) \<noteq> []"
    by (simp add: trim_def)
  then have "\<not> is_ws (hd (dropWhile is_ws (rev (dropWhile is_ws s))))"
    by (rule hd_dropWhile)
  then show ?thesis using ne by (simp add: trim_def last_rev)
qed

lemma safe_str_hd: "safe_str x n \<noteq> [] \<Longrightarrow> \<not> is_ws (hd (safe_str x n))"
proof -
  assume ne: "safe_str x n \<noteq> []"
  then have "trim (replace_ws x) \<noteq> []" and "0 < n"
    by (auto simp: safe_str_def slice0_def)
  then show ?thesis using trim_hd [of "replace_ws x"]
    by (simp add: safe_str_def slice0_def hd_take)
qed

lemma length_safe_str: "length (safe_str x n) \<le> n"
  by (simp add: safe_str_def slice0_def)

lemma dropWhile_rev_last: "xs \<noteq> [] \<Longrightarrow> \<not> P (last xs) \<Longrightarrow> dropWhile P (rev xs) = rev xs"
  by (simp add: dropWhile_eq_self_iff hd_rev)

lemma trim_idle:
  assumes "s = [] \<or> (\<not> is_ws (hd s) \<and> \<not> is_ws (last s))"
  shows "trim s = s"
proof (cases s)
  case Nil
  then show ?thesis by (simp add: trim_def)
next
  case (Cons c cs)
  with assms have h: "\<not> is_ws (hd s)" and l: "\<not> is_ws (last s)" by auto
  from h Cons have "dropWhile is_ws s = s" by simp
  moreover from Cons have "s \<noteq> []" by simp
  then have "dropWhile is_ws (rev s) = rev s"
    using l by (rule dropWhile_rev_last)
  ultimately show ?thesis by (simp add: trim_def)
qed

lemma collapsed_snoc_space:
  "collapsed (ys @ [c]) \<Longrightarrow> is_ws c \<Longrightarrow> ys \<noteq> [] \<Longrightarrow> \<not> is_ws (last ys)"
proof (induction ys rule: collapsed.induct)
  case 1
  then show ?case by simp
next
  case (2 d)
  then show ?case by auto
next
  case (3 d e cs)
  then show ?case by auto
qed

lemma trim_snoc_space:
  assumes "ys \<noteq> []" "\<not> is_ws (hd ys)" "\<not> is_ws (last ys)" "is_ws c"
  shows "trim (ys @ [c]) = ys"
proof -
  from assms have "dropWhile is_ws (ys @ [c]) = ys @ [c]"
    by (cases ys) auto
  moreover from assms have "dropWhile is_ws (rev ys) = rev ys"
    by (simp add: dropWhile_rev_last)
  ultimately show ?thesis using assms by (simp add: trim_def)
qed

lemma safe_str_twice:
  "safe_str (safe_str x n) n =
     (if safe_str x n \<noteq> [] \<and> last (safe_str x n) = 0x20 then butlast (safe_str x n)
      else safe_str x n)"
proof -
  let ?y = "safe_str x n"
  have col: "collapsed ?y" by (rule collapsed_safe_str)
  then have rep: "replace_ws ?y = ?y" by (rule replace_ws_collapsed)
  have len: "length ?y \<le> n" by (rule length_safe_str)
  show ?thesis
  proof (cases "?y = []")
    case True
    then show ?thesis by (simp add: safe_str_def [of "[]"] trim_def slice0_def)
  next
    case ne: False
    then have h: "\<not> is_ws (hd ?y)" by (rule safe_str_hd)
    show ?thesis
    proof (cases "last ?y = 0x20")
      case True
      obtain ys where y: "?y = ys @ [0x20]"
        using ne True by (metis append_butlast_last_id)
      from h y have ysne: "ys \<noteq> []" by (auto simp: is_ws_space)
      from col y ysne have l: "\<not> is_ws (last ys)"
        using collapsed_snoc_space [of ys "0x20"] by (simp add: is_ws_space)
      from h y ysne have h': "\<not> is_ws (hd ys)" by simp
      have "trim ?y = ys"
        using trim_snoc_space [OF ysne h' l is_ws_space] y by simp
      moreover have "length ys \<le> n" using len y by simp
      ultimately have "safe_str ?y n = ys"
        using rep by (simp add: safe_str_def [of ?y] slice0_def)
      with y ne True show ?thesis by simp
    next
      case False
      have "\<not> is_ws (last ?y)"
      proof
        assume w: "is_ws (last ?y)"
        from ne have "last ?y \<in> set ?y" by simp
        with col w have "last ?y = 0x20" by (rule collapsed_ws_space)
        with False show False by simp
      qed
      with h ne have "trim ?y = ?y" by (simp add: trim_idle)
      with rep len False show ?thesis
        by (simp add: safe_str_def [of ?y] slice0_def)
    qed
  qed
qed

lemma safe_JStr: "safe (JStr x) n = Inr (safe_str x n)"
  by (simp add: safe_def coerce_def)

lemma safe_length: "safe v n = Inr y \<Longrightarrow> length y \<le> n"
  by (auto simp: safe_def length_safe_str split: sum.splits)

lemma safe_collapsed: "safe v n = Inr y \<Longrightarrow> collapsed y"
  by (auto simp: safe_def collapsed_safe_str split: sum.splits)

lemma safe_nullish: "nullish v \<Longrightarrow> safe v n = Inr []"
  by (simp add: safe_def coerce_def safe_str_def trim_def slice0_def)

text \<open>
  C5 (as the code has it). Sanitizing twice removes the one trailing space that the cut
  at \<open>n\<close> characters can leave: the second result is the first without that space, and
  the two are equal whenever the normalised text fits into \<open>n\<close> characters.
\<close>

theorem safe_twice:
  assumes "safe (JStr x) n = Inr y"
  shows "safe (JStr y) n = Inr (if y \<noteq> [] \<and> last y = 0x20 then butlast y else y)
     \<and> (length (trim (replace_ws x)) \<le> n \<longrightarrow> safe (JStr y) n = Inr y)"
proof -
  from assms have y: "y = safe_str x n" by (simp add: safe_JStr)
  have first: "safe (JStr y) n = Inr (if y \<noteq> [] \<and> last y = 0x20 then butlast y else y)"
    unfolding y safe_JStr by (simp only: safe_str_twice)
  have "safe (JStr y) n = Inr y" if fits: "length (trim (replace_ws x)) \<le> n"
  proof -
    from fits have t: "y = trim (replace_ws x)" by (simp add: y safe_str_def slice0_def)
    have "y = [] \<or> last y \<noteq> 0x20"
      using trim_last [of "replace_ws x"] is_ws_space by (auto simp: t)
    with first show ?thesis by auto
  qed
  with first show ?thesis by blast
qed

theorem safe_twice_witness:
  "safe (JStr (ascii ''a  b'')) 5 = Inr (ascii ''a b'')
   \<and> safe (JStr (ascii ''a b'')) 5 = Inr (ascii ''a b'')"
proof -
  have h: "safe (JStr (ascii ''a  b'')) 5 = Inr (ascii ''a b'')"
    by (simp add: safe_JStr safe_str_def trim_def slice0_def ascii_def is_ws_def)
  from safe_twice [OF h] h show ?thesis by (simp add: ascii_def)
qed

text \<open>
  C5 (as stated) fails: \<^verbatim>\<open>safe("ab cd", 3)\<close> is \<^verbatim>\<open>"ab "\<close>, and sanitizing that gives
  \<^verbatim>\<open>"ab"\<close>.
\<close>

theorem safe_not_idempotent:
  "safe (JStr (ascii ''ab cd'')) 3 = Inr (ascii ''ab '')
   \<and> safe (JStr (ascii ''ab '')) 3 = Inr (ascii ''ab'')
   \<and> ascii ''ab '' \<noteq> ascii ''ab''"
  by (simp add: safe_JStr safe_str_def trim_def slice0_def ascii_def is_ws_def)

text \<open>
  C6. \<^verbatim>\<open>safe\<close> is not total: on an object with an own property \<^verbatim>\<open>toString\<close>, as
  \<^verbatim>\<open>JSON.parse\<close> builds it from \<^verbatim>\<open>{"toString": 1}\<close>, the call \<^verbatim>\<open>String(v)\<close> throws.
\<close>

theorem safe_throws:
  "safe (JObj [(ascii ''toString'', JNum (ascii ''1''))]) 80 = Inl TypeError"
  by (simp add: safe_def coerce_def)

section \<open>Properties of the identifier generator\<close>

lemma less_16_cases:
  "(d::nat) < 16 \<Longrightarrow> d \<in> {0, 1, 2, 3, 4, 5, 6, 7, 8, 9, 10, 11, 12, 13, 14, 15}"
  by (simp only: insert_iff empty_iff) arith

lemma hex_digit_is_hex: "d < 16 \<Longrightarrow> is_hex (hex_digit d)"
  by (drule less_16_cases) (auto simp: hex_digit_def is_hex_def)

lemma hex_val_hex_digit: "d < 16 \<Longrightarrow> hex_val (hex_digit d) = d"
  by (drule less_16_cases) (auto simp: hex_digit_def hex_val_def)

lemma hex_digits_ne: "hex_digits n \<noteq> []"
  by (subst hex_digits.simps) simp

lemma hex_digits_is_hex: "list_all is_hex (hex_digits n)"
proof (induction n rule: hex_digits.induct)
  case (1 n)
  show ?case
  proof (cases "n < 16")
    case True
    then show ?thesis by (subst hex_digits.simps) (simp add: hex_digit_is_hex)
  next
    case False
    with 1 show ?thesis by (subst hex_digits.simps) (simp add: hex_digit_is_hex)
  qed
qed

lemma hex_value_snoc: "hex_value (s @ [c]) = 16 * hex_value s + hex_val c"
  by (simp add: hex_value_def)

lemma hex_value_hex_digits: "hex_value (hex_digits n) = n"
proof (induction n rule: hex_digits.induct)
  case (1 n)
  show ?case
  proof (cases "n < 16")
    case True
    then show ?thesis
      by (subst hex_digits.simps) (simp add: hex_value_def hex_val_hex_digit)
  next
    case False
    with 1 have "hex_value (hex_digits (n div 16)) = n div 16" by simp
    with False show ?thesis
      by (subst hex_digits.simps) (simp add: hex_value_snoc hex_val_hex_digit)
  qed
qed

lemma toString16_sign:
  "toString16 i = (if i < 0 then [0x2D] else []) @ hex_digits (nat \<bar>i\<bar>)"
  by (simp add: toString16_def)

text \<open>
  C7. Whatever the clock reads, and for every rendering of the random number, the
  identifier is the prefix \<^verbatim>\<open>lead_\<close>, then the hexadecimal digits of the random number
  (those after \<^verbatim>\<open>0.\<close>; none when the number is zero), then the epoch time in
  hexadecimal: a non-empty string of digits \<^verbatim>\<open>0-9a-f\<close> whose value is the clock reading
  (after a minus sign, should the clock read a time before the epoch).
\<close>

theorem generateId_form:
  assumes "random_rendering rnd ds"
  shows "generateId rnd now
           = ascii ''lead_'' @ ds @ (if now < 0 then [0x2D] else []) @ hex_digits (nat \<bar>now\<bar>)
     \<and> list_all is_hex ds
     \<and> hex_digits (nat \<bar>now\<bar>) \<noteq> []
     \<and> list_all is_hex (hex_digits (nat \<bar>now\<bar>))
     \<and> int (hex_value (hex_digits (nat \<bar>now\<bar>))) = \<bar>now\<bar>"
proof -
  from assms have ds: "list_all is_hex ds" and "drop 2 rnd = ds"
    by (auto simp: random_rendering_def ascii_def split: if_splits)
  then have "generateId rnd now
      = ascii ''lead_'' @ ds @ (if now < 0 then [0x2D] else []) @ hex_digits (nat \<bar>now\<bar>)"
    by (simp add: generateId_def toString16_sign)
  with ds show ?thesis
    by (simp add: hex_digits_ne hex_digits_is_hex hex_value_hex_digits)
qed

theorem generateId_form_witness:
  "random_rendering (ascii ''0.8f3a'') (ascii ''8f3a'')
   \<and> generateId (ascii ''0.8f3a'') 255 = ascii ''lead_8f3aff''"
proof -
  have h: "random_rendering (ascii ''0.8f3a'') (ascii ''8f3a'')"
    by (simp add: random_rendering_def ascii_def is_hex_def)
  have d: "hex_digits 255 = ascii ''ff''"
    by (simp add: hex_digits.simps [of 255] hex_digits.simps [of 15] hex_digit_def ascii_def)
  from generateId_form [OF h, of 255] h d show ?thesis
    by (simp add: ascii_def)
qed

section \<open>Properties of the rate limiter\<close>

lemma rate_limit_api:
  assumes "startsWith (path req) (ascii ''/api/'')"
  shows "rate_limit m req now =
     (if now - last_hit m (client_ip req) < 3000 then (m, Some (Json 429 (ErrBody too_fast_msg)))
      else (m(client_ip req \<mapsto> now), None))"
  using assms by (simp add: rate_limit_def Let_def)

text \<open>
  C8. A request whose path does not start with \<^verbatim>\<open>/api/\<close> passes the limiter: it is never
  answered 429 there, and the map of timestamps stays as it was.
\<close>

theorem rate_limit_other_paths:
  assumes "\<not> startsWith (path req) (ascii ''/api/'')"
  shows "rate_limit m req now = (m, None)"
  using assms by (simp add: rate_limit_def)

theorem rate_limit_other_paths_witness:
  "\<not> startsWith (path health_request) (ascii ''/api/'')
   \<and> rate_limit [ascii ''1.2.3.4'' \<mapsto> 5000] health_request 6000
       = ([ascii ''1.2.3.4'' \<mapsto> 5000], None)"
proof -
  have h: "\<not> startsWith (path health_request) (ascii ''/api/'')"
    by (simp add: health_request_def startsWith_def ascii_def)
  from rate_limit_other_paths [OF h] h show ?thesis by simp
qed




text \<open>
  C10. The decision for a request and the timestamp then recorded for its identifier depend
  on the map only through the entry of that identifier; and a request of one identifier
  never changes the decision for a later request of another identifier.
\<close>

theorem rate_limit_noninterference:
  assumes "ma (client_ip req) = mb (client_ip req)"
  shows "snd (rate_limit ma req now) = snd (rate_limit mb req now)
     \<and> fst (rate_limit ma req now) (client_ip req) = fst (rate_limit mb req now) (client_ip req)
     \<and> (\<forall>other. client_ip other \<noteq> client_ip req \<longrightarrow>
          snd (rate_limit (fst (rate_limit ma req now)) other later) = snd (rate_limit ma other later))"
proof -
  have l: "last_hit ma (client_ip req) = last_hit mb (client_ip req)"
    using assms by (simp add: last_hit_def)
  have a: "snd (rate_limit ma req now) = snd (rate_limit mb req now)"
    using l by (simp add: rate_limit_def Let_def)
  have b: "fst (rate_limit ma req now) (client_ip req) = fst (rate_limit mb req now) (client_ip req)"
    using l assms by (simp add: rate_limit_def Let_def)
  have c: "snd (rate_limit (fst (rate_limit ma req now)) other later) = snd (rate_limit ma other later)"
    if "client_ip other \<noteq> client_ip req" for other
  proof -
    have "fst (rate_limit ma req now) (client_ip other) = ma (client_ip other)"
      using that by (simp add: rate_limit_def Let_def)
    then have "last_hit (fst (rate_limit ma req now)) (client_ip other) = last_hit ma (client_ip other)"
      by (simp add: last_hit_def)
    then show ?thesis by (simp add: rate_limit_def Let_def)
  qed
  from a b c show ?thesis by blast
qed

theorem rate_limit_noninterference_witness:
  "[ascii ''1.2.3.4'' \<mapsto> 5000, ascii ''5.6.7.8'' \<mapsto> 7000] (client_ip (lead_request JNull))
     = [ascii ''1.2.3.4'' \<mapsto> (5000::int)] (client_ip (lead_request JNull))
   \<and> snd (rate_limit [ascii ''1.2.3.4'' \<mapsto> 5000, ascii ''5.6.7.8'' \<mapsto> 7000] (lead_request JNull) 7500)
     = snd (rate_limit [ascii ''1.2.3.4'' \<mapsto> 5000] (lead_request JNull) 7500)"
proof -
  have ip: "client_ip (lead_request JNull) = ascii ''1.2.3.4''"
    by (simp add: client_ip_def lead_request_def or_else_def ascii_def)
  have h: "[ascii ''1.2.3.4'' \<mapsto> 5000, ascii ''5.6.7.8'' \<mapsto> 7000] (client_ip (lead_request JNull))
     = [ascii ''1.2.3.4'' \<mapsto> (5000::int)] (client_ip (lead_request JNull))"
    by (simp add: ip) (simp add: ascii_def)
  from rate_limit_noninterference
      [of "[ascii ''1.2.3.4'' \<mapsto> 5000, ascii ''5.6.7.8'' \<mapsto> 7000]" "lead_request JNull"
          "[ascii ''1.2.3.4'' \<mapsto> 5000]" 7500, OF h] h
  show ?thesis by blast
qed

section \<open>Properties of the endpoint\<close>

lemma get_field_lead_body:
  "get_field (lead_body v extra) ''industry'' = v"
  "get_field (lead_body v extra) ''problem'' = JStr (ascii ''Brak czasu'')"
  "get_field (lead_body v extra) ''message'' = JStr (ascii ''Pomocy'')"
  "get_field (lead_body v extra) ''contact'' = JStr (ascii ''jan@x.pl'')"
  by (simp_all add: get_field_def lead_body_def ascii_def)

lemma get_field_optional:
  "get_field (lead_body v []) ''tools'' = JUndefined"
  "get_field (lead_body v []) ''website'' = JUndefined"
  "get_field (lead_body v []) ''wantsMvp'' = JUndefined"
  "get_field (lead_body v []) ''wantsAutomation'' = JUndefined"
  "get_field (lead_body v wants_false) ''tools'' = JUndefined"
  "get_field (lead_body v wants_false) ''website'' = JUndefined"
  "get_field (lead_body v wants_false) ''wantsMvp'' = JStr (ascii ''false'')"
  "get_field (lead_body v wants_false) ''wantsAutomation'' = JUndefined"
  by (simp_all add: get_field_def lead_body_def wants_false_def ascii_def)

lemma safe_examples:
  "safe (JStr (ascii ''Brak czasu'')) 120 = Inr (ascii ''Brak czasu'')"
  "safe (JStr (ascii ''Pomocy'')) 2000 = Inr (ascii ''Pomocy'')"
  "safe (JStr (ascii ''jan@x.pl'')) 120 = Inr (ascii ''jan@x.pl'')"
  "safe (JStr (ascii ''  Handel   detaliczny '')) 80 = Inr (ascii ''Handel detaliczny'')"
  "safe (JStr (ascii ''   '')) 80 = Inr []"
  "safe (JArr []) 80 = Inr []"
  by (simp_all add: safe_def coerce_def safe_str_def trim_def slice0_def ascii_def is_ws_def)

lemma build_lead_example:
  assumes "safe v 80 = Inr i"
  shows "build_lead example_env (lead_body v []) = Inr (example_lead i False)"
    and "build_lead example_env (lead_body v wants_false) = Inr (example_lead i True)"
  using assms
  by (simp_all add: build_lead_def get_field_lead_body get_field_optional safe_examples
      safe_nullish example_env_def example_lead_def)
     (simp add: ascii_def)

lemma required_ok_example: "required_ok (lead_body v extra) \<longleftrightarrow> truthy v"
  by (simp add: required_ok_def get_field_lead_body ascii_def)

lemma is_hex_not_newline: "is_hex c \<Longrightarrow> c \<noteq> 0x0A"
  by (auto simp: is_hex_def)

lemma hex4_no_newline: "0x0A \<notin> set (hex4 c)"
proof -
  have "unat c < 65536" using unsigned_less [of c, where 'a = nat] by simp
  then have "unat c div 4096 < 16" by simp
  then have "list_all is_hex (hex4 c)"
    by (simp add: hex4_def hex_digit_is_hex)
  then show ?thesis
    using is_hex_not_newline by (auto simp: list_all_iff)
qed

lemma escape_unit_no_newline: "0x0A \<notin> set (escape_unit c)"
  using hex4_no_newline [of c] by (simp add: escape_unit_def)

lemma quote_units_no_newline: "0x0A \<notin> set (quote_units s)"
proof (induction s rule: quote_units.induct)
  case 1
  show ?case by simp
next
  case (2 c)
  show ?case by (simp add: escape_unit_no_newline)
next
  case (3 c d cs)
  then show ?case
    by (auto simp: escape_unit_no_newline is_high_surrogate_def is_low_surrogate_def)
qed

lemma json_quote_no_newline: "0x0A \<notin> set (json_quote s)"
  by (simp add: json_quote_def quote_units_no_newline)

lemma json_bool_no_newline: "0x0A \<notin> set (json_bool b)"
  by (simp add: json_bool_def ascii_def)

lemma JSON_stringify_no_newline: "0x0A \<notin> set (JSON_stringify l)"
  unfolding JSON_stringify_def
  by (simp add: json_quote_no_newline json_bool_no_newline json_key_def ascii_def)

lemma hex_positions:
  fixes n :: nat
  shows "4096 * (n div 4096) + 256 * (n div 256 mod 16) + 16 * (n div 16 mod 16) + n mod 16 = n"
proof -
  define a where "a = n div 16"
  define b where "b = a div 16"
  define c where "c = b div 16"
  define r0 where "r0 = n mod 16"
  define r1 where "r1 = a mod 16"
  define r2 where "r2 = b mod 16"
  have e0: "n = 16 * a + r0" by (simp add: a_def r0_def)
  have e1: "a = 16 * b + r1" by (simp add: b_def r1_def)
  have e2: "b = 16 * c + r2" by (simp add: c_def r2_def)
  have "n div 256 = b" by (simp add: a_def b_def div_mult2_eq)
  moreover have "n div 4096 = c" by (simp add: a_def b_def c_def div_mult2_eq)
  ultimately have "4096 * (n div 4096) + 256 * (n div 256 mod 16) + 16 * (n div 16 mod 16) + n mod 16
      = 4096 * c + 256 * r2 + 16 * r1 + r0"
    by (simp add: a_def r0_def r1_def r2_def)
  also have "\<dots> = n" using e0 e1 e2 by linarith
  finally show ?thesis .
qed

lemma unhex4_hex4: "hex4 c = [h1, h2, h3, h4] \<Longrightarrow> unhex4 h1 h2 h3 h4 = c"
proof -
  assume h: "hex4 c = [h1, h2, h3, h4]"
  have lt: "unat c < 65536" using unsigned_less [of c, where 'a = nat] by simp
  then have d: "unat c div 4096 < 16" by simp
  from h have "h1 = hex_digit (unat c div 4096)" "h2 = hex_digit (unat c div 256 mod 16)"
    "h3 = hex_digit (unat c div 16 mod 16)" "h4 = hex_digit (unat c mod 16)"
    by (simp_all add: hex4_def)
  then have "4096 * hex_val h1 + 256 * hex_val h2 + 16 * hex_val h3 + hex_val h4 = unat c"
    using d by (simp only: hex_val_hex_digit mod_less_divisor zero_less_numeral hex_positions)
  then show ?thesis by (simp add: unhex4_def)
qed

lemma hex4_is_hex: "list_all is_hex (hex4 c)"
proof -
  have "unat c < 65536" using unsigned_less [of c, where 'a = nat] by simp
  then have "unat c div 4096 < 16" by simp
  then show ?thesis by (simp add: hex4_def hex_digit_is_hex)
qed

lemma read_units_hex4:
  "read_units (0x5C # 0x75 # hex4 c @ t) = map_option (apfst ((#) c)) (read_units t)"
proof -
  obtain h1 h2 h3 h4 where h: "hex4 c = [h1, h2, h3, h4]"
    by (simp add: hex4_def)
  with hex4_is_hex [of c] have "is_hex h1 \<and> is_hex h2 \<and> is_hex h3 \<and> is_hex h4" by simp
  with h unhex4_hex4 [OF h] show ?thesis by simp
qed

lemma read_units_plain:
  "c \<noteq> 0x22 \<Longrightarrow> c \<noteq> 0x5C \<Longrightarrow> \<not> c < 0x20 \<Longrightarrow>
   read_units (c # t) = map_option (apfst ((#) c)) (read_units t)"
  by simp

lemma read_units_escape_unit:
  "read_units (escape_unit c @ t) = map_option (apfst ((#) c)) (read_units t)"
proof -
  consider "c = 0x08" | "c = 0x09" | "c = 0x0A" | "c = 0x0C" | "c = 0x0D" | "c = 0x22" | "c = 0x5C"
    | "c \<notin> {0x08, 0x09, 0x0A, 0x0C, 0x0D, 0x22, 0x5C}"
        "c < 0x20 \<or> is_high_surrogate c \<or> is_low_surrogate c"
    | "c \<notin> {0x08, 0x09, 0x0A, 0x0C, 0x0D, 0x22, 0x5C}"
        "\<not> (c < 0x20 \<or> is_high_surrogate c \<or> is_low_surrogate c)"
    by blast
  then show ?thesis
  proof cases
    case 8
    then have "escape_unit c = 0x5C # 0x75 # hex4 c" by (simp add: escape_unit_def)
    then show ?thesis by (simp only: append_Cons read_units_hex4)
  next
    case 9
    then have "escape_unit c = [c]" by (simp add: escape_unit_def)
    with 9 show ?thesis by simp
  qed (simp_all add: escape_unit_def unescape_def)
qed

lemma surrogate_plain:
  "is_high_surrogate c \<or> is_low_surrogate c \<Longrightarrow> c \<noteq> 0x22 \<and> c \<noteq> 0x5C \<and> \<not> c < 0x20"
  by (auto simp: is_high_surrogate_def is_low_surrogate_def word_le_nat_alt word_less_nat_alt)

lemma read_units_quote_units: "read_units (quote_units s @ 0x22 # t) = Some (s, t)"
proof (induction s rule: quote_units.induct)
  case 1
  show ?case by simp
next
  case (2 c)
  show ?case by (simp only: quote_units.simps read_units_escape_unit) simp
next
  case (3 c d cs)
  show ?case
  proof (cases "is_high_surrogate c \<and> is_low_surrogate d")
    case True
    with 3 surrogate_plain [of c] surrogate_plain [of d] show ?thesis by simp
  next
    case False
    with 3 have "read_units (quote_units (d # cs) @ 0x22 # t) = Some (d # cs, t)" by simp
    with False show ?thesis
      by (simp only: quote_units.simps if_False append_assoc read_units_escape_unit) simp
  qed
qed

lemma read_string_json_quote: "read_string (json_quote s @ t) = Some (s, t)"
  by (simp add: read_string_def json_quote_def read_units_quote_units)

lemma read_bool_json_bool: "read_bool (json_bool b @ t) = Some (b, t)"
  by (simp add: read_bool_def json_bool_def ascii_def)

lemma expect_append: "expect p (p @ t) = Some t"
  by (simp add: expect_def)

lemma read_member_written:
  "read_member sep k ([sep] @ json_key k @ json_quote v @ t) = Some (v, t)"
proof -
  have "expect ([sep] @ json_key k) ([sep] @ json_key k @ json_quote v @ t) = Some (json_quote v @ t)"
    using expect_append [of "[sep] @ json_key k" "json_quote v @ t"] by simp
  then show ?thesis by (simp add: read_member_def read_string_json_quote)
qed

lemma read_flag_written:
  "read_flag sep k ([sep] @ json_key k @ json_bool b @ t) = Some (b, t)"
proof -
  have "expect ([sep] @ json_key k) ([sep] @ json_key k @ json_bool b @ t) = Some (json_bool b @ t)"
    using expect_append [of "[sep] @ json_key k" "json_bool b @ t"] by simp
  then show ?thesis by (simp add: read_flag_def read_bool_json_bool)
qed

lemma read_members_step:
  "read_members ks 0x2C t = Some (vs, r) \<Longrightarrow>
   read_members (k # ks) sep ([sep] @ json_key k @ json_quote v @ t) = Some (v # vs, r)"
  by (simp only: read_members.simps read_member_written option.case prod.case option.map apfst_conv)

lemma read_members_JSON_stringify:
  "read_members [''id'', ''createdAt'', ''industry'', ''problem'', ''tools'', ''message'',
      ''contact'', ''website''] 0x7B (JSON_stringify l)
   = Some ([lead_id l, createdAt l, industry l, problem l, tools l, message l, contact l, website l],
       [0x2C] @ json_key ''wantsMvp'' @ json_bool (wantsMvp l)
       @ [0x2C] @ json_key ''wantsAutomation'' @ json_bool (wantsAutomation l) @ [0x7D])"
  unfolding JSON_stringify_def
  by (intro read_members_step) (simp only: read_members.simps)

lemma read_lead_JSON_stringify: "read_lead (JSON_stringify l) = Some l"
  unfolding read_lead_def
  by (simp only: read_members_JSON_stringify read_flag_written option.case prod.case)
     simp

lemma JSON_stringify_inject:
  assumes "JSON_stringify l = JSON_stringify l'"
  shows "l = l'"
proof -
  from assms have "read_lead (JSON_stringify l) = read_lead (JSON_stringify l')"
    by (rule arg_cong)
  then have "Some l = Some l'"
    by (simp only: read_lead_JSON_stringify)
  then show ?thesis by (simp only: option.inject)
qed

lemma build_lead_fields:
  assumes "build_lead e b = Inr l"
  shows "safe (get_field b ''industry'') 80 = Inr (industry l)"
    and "safe (get_field b ''problem'') 120 = Inr (problem l)"
    and "safe (get_field b ''tools'') 200 = Inr (tools l)"
    and "safe (get_field b ''message'') 2000 = Inr (message l)"
    and "safe (get_field b ''contact'') 120 = Inr (contact l)"
    and "safe (get_field b ''website'') 200 = Inr (website l)"
    and "lead_id l = generateId (random16 e) (id_now e)"
    and "createdAt l = created_iso e"
    and "wantsMvp l = truthy (get_field b ''wantsMvp'')"
    and "wantsAutomation l = truthy (get_field b ''wantsAutomation'')"
  using assms by (auto simp: build_lead_def split: sum.splits)

lemma build_lead_within_limits: "build_lead e b = Inr l \<Longrightarrow> within_limits l"
  unfolding within_limits_def
  using build_lead_fields(1-6) [of e b l, THEN safe_length] by simp

lemma build_lead_id: "build_lead e b = Inr l \<Longrightarrow> startsWith (lead_id l) (ascii ''lead_'')"
  by (simp add: build_lead_fields(7) generateId_def startsWith_def ascii_def)

lemma coercible_safe: "coercible v \<Longrightarrow> \<exists>y. safe v n = Inr y"
  by (auto simp: coercible_def safe_def split: sum.splits)

lemma build_lead_total:
  assumes "list_all (\<lambda>k. coercible (get_field b k)) string_fields"
  shows "\<exists>l. build_lead e b = Inr l"
proof -
  from assms have c: "coercible (get_field b ''industry'')" "coercible (get_field b ''problem'')"
    "coercible (get_field b ''tools'')" "coercible (get_field b ''message'')"
    "coercible (get_field b ''contact'')" "coercible (get_field b ''website'')"
    by (simp_all add: string_fields_def)
  obtain i where "safe (get_field b ''industry'') 80 = Inr i"
    using coercible_safe [OF c(1)] by blast
  moreover obtain p where "safe (get_field b ''problem'') 120 = Inr p"
    using coercible_safe [OF c(2)] by blast
  moreover obtain t where "safe (get_field b ''tools'') 200 = Inr t"
    using coercible_safe [OF c(3)] by blast
  moreover obtain m where "safe (get_field b ''message'') 2000 = Inr m"
    using coercible_safe [OF c(4)] by blast
  moreover obtain k where "safe (get_field b ''contact'') 120 = Inr k"
    using coercible_safe [OF c(5)] by blast
  moreover obtain w where "safe (get_field b ''website'') 200 = Inr w"
    using coercible_safe [OF c(6)] by blast
  ultimately show ?thesis by (simp add: build_lead_def)
qed

lemma lead_handler_stored:
  assumes "lead_handler s e b = (s', r)" and "leads_file s' \<noteq> leads_file s"
  shows "\<exists>l. build_lead e b = Inr l \<and> required_ok b \<and> r = Json 200 OkBody
     \<and> s' = s\<lparr>dir_exists := True, leads_file := leads_file s @ JSON_stringify l @ [0x0A]\<rparr>"
  using assms
  by (auto simp: lead_handler_def Let_def split: if_splits sum.splits)

lemma lead_handler_ok:
  assumes "lead_handler s e b = (s', Json 200 OkBody)"
  shows "\<exists>l. build_lead e b = Inr l \<and> required_ok b
     \<and> s' = s\<lparr>dir_exists := True, leads_file := leads_file s @ JSON_stringify l @ [0x0A]\<rparr>"
  using assms
  by (auto simp: lead_handler_def Let_def split: if_splits sum.splits)

lemma app_leads_file:
  assumes "app s e req = (s', r)" and "leads_file s' \<noteq> leads_file s"
  shows "snd (rate_limit (lastHitByIp s) req (mw_now e)) = None
     \<and> http_method req = POST \<and> lead_route (path req)
     \<and> lead_handler (s\<lparr>lastHitByIp := fst (rate_limit (lastHitByIp s) req (mw_now e))\<rparr>) e (body req)
         = (s', r)"
  using assms
  by (auto simp: app_def split: prod.splits option.splits if_splits)

lemma coercible_examples:
  "coercible JUndefined" "coercible (JStr x)" "coercible (JArr [])"
  by (simp_all add: coercible_def coerce_def)

lemma fields_coercible:
  "coercible v \<Longrightarrow> list_all (\<lambda>k. coercible (get_field (lead_body v []) k)) string_fields"
  by (simp add: string_fields_def get_field_lead_body get_field_optional coercible_examples)

lemma build_lead_append_ok: "build_lead (e\<lparr>append_ok := x\<rparr>) b = build_lead e b"
  by (simp add: build_lead_def split: sum.splits)

text \<open>
  C1 (as the code has it). For a submission whose four required fields are truthy and
  whose string fields all convert to strings, when the directory exists or can be made:
  if the append succeeds, the handler answers 200 with \<^verbatim>\<open>{ok: true}\<close> and appends
  exactly one line to the lead file, the JSON text of the record it built, which holds no
  line feed, followed by a line feed; if the append fails, it answers 500 with the server
  error message and the file stays as it was. Reading the line back gives the record; its
  identifier starts with \<^verbatim>\<open>lead_\<close> and every string field is within its maximum
  length.
\<close>

theorem lead_handler_valid:
  assumes "truthy (get_field b ''industry'')" and "truthy (get_field b ''problem'')"
    and "truthy (get_field b ''message'')" and "truthy (get_field b ''contact'')"
    and co: "list_all (\<lambda>k. coercible (get_field b k)) string_fields"
    and dir: "dir_exists s \<or> mkdir_ok e"
  shows "\<exists>l. build_lead e b = Inr l
     \<and> lead_handler s e b
         = (if append_ok e
            then (s\<lparr>dir_exists := True, leads_file := leads_file s @ JSON_stringify l @ [0x0A]\<rparr>,
                  Json 200 OkBody)
            else (s\<lparr>dir_exists := True\<rparr>, Json 500 (ErrBody server_error_msg)))
     \<and> 0x0A \<notin> set (JSON_stringify l)
     \<and> read_lead (JSON_stringify l) = Some l
     \<and> startsWith (lead_id l) (ascii ''lead_'')
     \<and> within_limits l"
proof -
  from co obtain l where l: "build_lead e b = Inr l"
    using build_lead_total by blast
  have req: "required_ok b"
    using assms(1-4) by (simp add: required_ok_def)
  have "lead_handler s e b
      = (if append_ok e
         then (s\<lparr>dir_exists := True, leads_file := leads_file s @ JSON_stringify l @ [0x0A]\<rparr>,
               Json 200 OkBody)
         else (s\<lparr>dir_exists := True\<rparr>, Json 500 (ErrBody server_error_msg)))"
    using req l dir by (auto simp: lead_handler_def)
  with l show ?thesis
    using JSON_stringify_no_newline read_lead_JSON_stringify build_lead_id
      build_lead_within_limits by blast
qed

theorem lead_handler_valid_witness:
  "truthy (JStr (ascii ''  Handel   detaliczny ''))
   \<and> lead_handler fresh_server example_env (lead_body (JStr (ascii ''  Handel   detaliczny '')) [])
       = (\<lparr> lastHitByIp = Map.empty, dir_exists = True,
            leads_file = JSON_stringify (example_lead (ascii ''Handel detaliczny'') False) @ [0x0A] \<rparr>,
          Json 200 OkBody)
   \<and> lead_handler fresh_server (example_env\<lparr>append_ok := False\<rparr>)
        (lead_body (JStr (ascii ''  Handel   detaliczny '')) [])
       = (\<lparr> lastHitByIp = Map.empty, dir_exists = True, leads_file = [] \<rparr>,
          Json 500 (ErrBody server_error_msg))
   \<and> read_lead (JSON_stringify (example_lead (ascii ''Handel detaliczny'') False))
       = Some (example_lead (ascii ''Handel detaliczny'') False)
   \<and> within_limits (example_lead (ascii ''Handel detaliczny'') False)"
proof -
  let ?v = "JStr (ascii ''  Handel   detaliczny '')"
  let ?b = "lead_body ?v []"
  let ?f = "example_env\<lparr>append_ok := False\<rparr>"
  have t: "truthy ?v" by (simp add: ascii_def)
  have tr: "truthy (get_field ?b ''industry'')" "truthy (get_field ?b ''problem'')"
    "truthy (get_field ?b ''message'')" "truthy (get_field ?b ''contact'')"
    by (simp_all add: get_field_lead_body ascii_def)
  have co: "list_all (\<lambda>k. coercible (get_field ?b k)) string_fields"
    by (simp add: fields_coercible coercible_examples)
  have d: "dir_exists fresh_server \<or> mkdir_ok example_env"
    and d': "dir_exists fresh_server \<or> mkdir_ok ?f"
    by (simp_all add: example_env_def)
  have bl: "build_lead example_env ?b = Inr (example_lead (ascii ''Handel detaliczny'') False)"
    by (rule build_lead_example(1) [OF safe_examples(4)])
  have bl': "build_lead ?f ?b = Inr (example_lead (ascii ''Handel detaliczny'') False)"
    using bl by (simp only: build_lead_append_ok)
  have ok: "append_ok example_env" and nok: "\<not> append_ok ?f"
    by (simp_all add: example_env_def)
  from lead_handler_valid [OF tr co d] bl ok
  have a: "lead_handler fresh_server example_env ?b
       = (\<lparr> lastHitByIp = Map.empty, dir_exists = True,
            leads_file = JSON_stringify (example_lead (ascii ''Handel detaliczny'') False) @ [0x0A] \<rparr>,
          Json 200 OkBody)"
    and r: "read_lead (JSON_stringify (example_lead (ascii ''Handel detaliczny'') False))
       = Some (example_lead (ascii ''Handel detaliczny'') False)"
    and w: "within_limits (example_lead (ascii ''Handel detaliczny'') False)"
    by (auto simp: fresh_server_def)
  from lead_handler_valid [OF tr co d'] bl' nok
  have b: "lead_handler fresh_server ?f ?b
       = (\<lparr> lastHitByIp = Map.empty, dir_exists = True, leads_file = [] \<rparr>,
          Json 500 (ErrBody server_error_msg))"
    by (auto simp: fresh_server_def)
  from t a b r w show ?thesis by blast
qed

text \<open>
  C1 (as stated) fails when the append fails: the submission is valid, the answer is 500
  with the server error message, and no line is added.
\<close>

theorem lead_handler_append_fails:
  "truthy (get_field (lead_body (JStr (ascii ''Handel'')) []) ''industry'')
   \<and> truthy (get_field (lead_body (JStr (ascii ''Handel'')) []) ''problem'')
   \<and> truthy (get_field (lead_body (JStr (ascii ''Handel'')) []) ''message'')
   \<and> truthy (get_field (lead_body (JStr (ascii ''Handel'')) []) ''contact'')
   \<and> lead_handler fresh_server (example_env\<lparr>append_ok := False\<rparr>)
        (lead_body (JStr (ascii ''Handel'')) [])
       = (fresh_server\<lparr>dir_exists := True\<rparr>, Json 500 (ErrBody server_error_msg))"
proof -
  have "safe (JStr (ascii ''Handel'')) 80 = Inr (ascii ''Handel'')"
    by (simp add: safe_def coerce_def safe_str_def trim_def slice0_def ascii_def is_ws_def)
  then have "build_lead (example_env\<lparr>append_ok := False\<rparr>) (lead_body (JStr (ascii ''Handel'')) [])
      = Inr (example_lead (ascii ''Handel'') False)"
    by (simp add: build_lead_def get_field_lead_body get_field_optional safe_examples
        safe_nullish example_env_def example_lead_def)
  then show ?thesis
    by (simp add: lead_handler_def required_ok_example get_field_lead_body)
       (simp add: example_env_def fresh_server_def ascii_def)
qed

text \<open>
  C2 (as the code has it). Whenever a request changes the lead file, it appends the line of
  one record built by the handler; every string field of that record is within its maximum
  length and has its whitespace collapsed, and the four required fields of the request
  body were truthy: the validation came before the append. (A required field can still be
  empty in the record.)
\<close>

theorem persisted_record_constraints:
  assumes "app s e req = (s', r)" and "leads_file s' \<noteq> leads_file s"
  shows "\<exists>l. build_lead e (body req) = Inr l
     \<and> leads_file s' = leads_file s @ JSON_stringify l @ [0x0A]
     \<and> within_limits l
     \<and> list_all collapsed [industry l, problem l, tools l, message l, contact l, website l]
     \<and> truthy (get_field (body req) ''industry'') \<and> truthy (get_field (body req) ''problem'')
     \<and> truthy (get_field (body req) ''message'') \<and> truthy (get_field (body req) ''contact'')"
proof -
  let ?s = "s\<lparr>lastHitByIp := fst (rate_limit (lastHitByIp s) req (mw_now e))\<rparr>"
  from app_leads_file [OF assms] have h: "lead_handler ?s e (body req) = (s', r)"
    by blast
  moreover have "leads_file s' \<noteq> leads_file ?s" using assms(2) by simp
  ultimately obtain l where l: "build_lead e (body req) = Inr l"
    and req: "required_ok (body req)"
    and s': "s' = ?s\<lparr>dir_exists := True, leads_file := leads_file ?s @ JSON_stringify l @ [0x0A]\<rparr>"
    using lead_handler_stored by blast
  from s' have "leads_file s' = leads_file s @ JSON_stringify l @ [0x0A]" by simp
  moreover have "list_all collapsed [industry l, problem l, tools l, message l, contact l, website l]"
    using build_lead_fields(1-6) [OF l, THEN safe_collapsed] by simp
  ultimately show ?thesis
    using l req build_lead_within_limits [OF l] by (auto simp: required_ok_def)
qed

theorem persisted_record_constraints_witness:
  "leads_file (fst (app fresh_server example_env (lead_request (lead_body (JStr (ascii ''Handel'')) []))))
     \<noteq> leads_file fresh_server
   \<and> within_limits (example_lead (ascii ''Handel'') False)"
proof -
  let ?req = "lead_request (lead_body (JStr (ascii ''Handel'')) [])"
  let ?s' = "\<lparr> lastHitByIp = [ascii ''1.2.3.4'' \<mapsto> 1700000000000], dir_exists = True,
          leads_file = JSON_stringify (example_lead (ascii ''Handel'') False) @ [0x0A] \<rparr>"
  have ip: "client_ip ?req = ascii ''1.2.3.4''"
    by (simp add: client_ip_def lead_request_def or_else_def ascii_def)
  have api: "startsWith (path ?req) (ascii ''/api/'')"
    by (simp add: lead_request_def startsWith_def ascii_def)
  have rl: "rate_limit Map.empty ?req 1700000000000 = ([ascii ''1.2.3.4'' \<mapsto> 1700000000000], None)"
    by (simp add: rate_limit_api [OF api] ip last_hit_def)
  have route: "http_method ?req = POST \<and> lead_route (path ?req)"
    by (simp add: lead_request_def lead_route_def to_lower_def ascii_def)
  have t: "truthy (JStr (ascii ''Handel''))" by (simp add: ascii_def)
  have sf: "safe (JStr (ascii ''Handel'')) 80 = Inr (ascii ''Handel'')"
    by (simp add: safe_def coerce_def safe_str_def trim_def slice0_def ascii_def is_ws_def)
  have bl: "build_lead example_env (body ?req) = Inr (example_lead (ascii ''Handel'') False)"
    using build_lead_example(1) [OF sf] by (simp add: lead_request_def)
  have "lead_handler (fresh_server\<lparr>lastHitByIp := [ascii ''1.2.3.4'' \<mapsto> 1700000000000]\<rparr>)
          example_env (lead_body (JStr (ascii ''Handel'')) []) = (?s', Json 200 OkBody)"
    by (simp add: lead_handler_def required_ok_example build_lead_example(1) [OF sf])
       (simp add: example_env_def fresh_server_def ascii_def)
  moreover have "body ?req = lead_body (JStr (ascii ''Handel'')) []"
    by (simp add: lead_request_def)
  moreover have "mw_now example_env = 1700000000000" "lastHitByIp fresh_server = Map.empty"
    by (simp_all add: example_env_def fresh_server_def)
  ultimately have a: "app fresh_server example_env ?req = (?s', Json 200 OkBody)"
    using rl route by (simp add: app_def)
  have ne: "leads_file ?s' \<noteq> leads_file fresh_server"
    by (simp add: fresh_server_def)
  from persisted_record_constraints [OF a ne] bl a ne show ?thesis by auto
qed

text \<open>
  C2 (as stated) fails for an \<^verbatim>\<open>industry\<close> of three spaces: it is truthy, so the
  submission is accepted, and it is stored as the empty string.
\<close>

theorem whitespace_only_industry_stored:
  "app fresh_server example_env (lead_request (lead_body (JStr (ascii ''   '')) []))
     = (\<lparr> lastHitByIp = [ascii ''1.2.3.4'' \<mapsto> 1700000000000], dir_exists = True,
          leads_file = JSON_stringify (example_lead [] False) @ [0x0A] \<rparr>, Json 200 OkBody)
   \<and> industry (example_lead [] False) = []"
proof -
  let ?req = "lead_request (lead_body (JStr (ascii ''   '')) [])"
  have ip: "client_ip ?req = ascii ''1.2.3.4''"
    by (simp add: client_ip_def lead_request_def or_else_def ascii_def)
  have api: "startsWith (path ?req) (ascii ''/api/'')"
    by (simp add: lead_request_def startsWith_def ascii_def)
  have rl: "rate_limit Map.empty ?req 1700000000000 = ([ascii ''1.2.3.4'' \<mapsto> 1700000000000], None)"
    by (simp add: rate_limit_api [OF api] ip last_hit_def)
  have route: "http_method ?req = POST \<and> lead_route (path ?req)"
    by (simp add: lead_request_def lead_route_def to_lower_def ascii_def)
  have t: "truthy (JStr (ascii ''   ''))" by (simp add: ascii_def)
  have "lead_handler (fresh_server\<lparr>lastHitByIp := [ascii ''1.2.3.4'' \<mapsto> 1700000000000]\<rparr>)
          example_env (lead_body (JStr (ascii ''   '')) [])
      = (\<lparr> lastHitByIp = [ascii ''1.2.3.4'' \<mapsto> 1700000000000], dir_exists = True,
          leads_file = JSON_stringify (example_lead [] False) @ [0x0A] \<rparr>, Json 200 OkBody)"
    by (simp add: lead_handler_def required_ok_example build_lead_example(1) [OF safe_examples(5)])
       (simp add: example_env_def fresh_server_def ascii_def)
  moreover have "body ?req = lead_body (JStr (ascii ''   '')) []"
    by (simp add: lead_request_def)
  moreover have "mw_now example_env = 1700000000000" "lastHitByIp fresh_server = Map.empty"
    by (simp_all add: example_env_def fresh_server_def)
  ultimately show ?thesis
    using rl route by (simp add: app_def example_lead_def)
qed

text \<open>
  C4 (as the code has it). When one of the four required fields is falsy (absent, null,
  false, zero, NaN or the empty string), the handler answers 400 with the message that
  lists the required fields, and the state, the lead file included, stays as it was.
\<close>

theorem lead_handler_missing_field:
  assumes "\<not> truthy (get_field b ''industry'') \<or> \<not> truthy (get_field b ''problem'')
     \<or> \<not> truthy (get_field b ''message'') \<or> \<not> truthy (get_field b ''contact'')"
  shows "lead_handler s e b = (s, Json 400 (ErrBody missing_msg))"
  using assms by (simp add: lead_handler_def required_ok_def)

theorem lead_handler_missing_field_witness:
  "\<not> truthy (get_field (JObj []) ''industry'')
   \<and> lead_handler fresh_server example_env (JObj [])
       = (fresh_server, Json 400 (ErrBody missing_msg))"
proof -
  have h: "\<not> truthy (get_field (JObj []) ''industry'')"
    by (simp add: get_field_def)
  then have "\<not> truthy (get_field (JObj []) ''industry'') \<or> \<not> truthy (get_field (JObj []) ''problem'')
     \<or> \<not> truthy (get_field (JObj []) ''message'') \<or> \<not> truthy (get_field (JObj []) ''contact'')"
    by simp
  from lead_handler_missing_field [OF this] h show ?thesis by simp
qed

text \<open>
  C4 (as stated) fails for an \<^verbatim>\<open>industry\<close> that is the empty array: it converts to the
  empty string, but it is truthy, and the submission is accepted and stored.
\<close>

theorem empty_array_passes_validation:
  "coerce (get_field (lead_body (JArr []) []) ''industry'') = Inr []
   \<and> lead_handler fresh_server example_env (lead_body (JArr []) [])
       = (\<lparr> lastHitByIp = Map.empty, dir_exists = True,
            leads_file = JSON_stringify (example_lead [] False) @ [0x0A] \<rparr>, Json 200 OkBody)"
  by (simp add: lead_handler_def required_ok_example get_field_lead_body
      build_lead_example(1) [OF safe_examples(6)] coerce_def)
     (simp add: example_env_def fresh_server_def)

text \<open>
  C9. Whenever the handler answers 200, the line it has appended to the lead file, read
  back, carries as \<^verbatim>\<open>wantsMvp\<close> and \<^verbatim>\<open>wantsAutomation\<close> the truthiness of the
  submitted values: true for the string \<^verbatim>\<open>"false"\<close>, false for an absent field.
\<close>

theorem wants_flags_truthiness:
  assumes "lead_handler s e b = (s', Json 200 OkBody)"
  shows "\<exists>l. build_lead e b = Inr l
     \<and> leads_file s' = leads_file s @ JSON_stringify l @ [0x0A]
     \<and> 0x0A \<notin> set (JSON_stringify l)
     \<and> map_option wantsMvp (read_lead (JSON_stringify l))
         = Some (truthy (get_field b ''wantsMvp''))
     \<and> map_option wantsAutomation (read_lead (JSON_stringify l))
         = Some (truthy (get_field b ''wantsAutomation''))
     \<and> wantsMvp l = truthy (get_field b ''wantsMvp'')
     \<and> wantsAutomation l = truthy (get_field b ''wantsAutomation'')
     \<and> (get_field b ''wantsMvp'' = JStr (ascii ''false'') \<longrightarrow>
          wantsMvp l \<and> map_option wantsMvp (read_lead (JSON_stringify l)) = Some True)
     \<and> (get_field b ''wantsAutomation'' = JStr (ascii ''false'') \<longrightarrow>
          wantsAutomation l
          \<and> map_option wantsAutomation (read_lead (JSON_stringify l)) = Some True)
     \<and> (get_field b ''wantsMvp'' = JUndefined \<longrightarrow>
          \<not> wantsMvp l \<and> map_option wantsMvp (read_lead (JSON_stringify l)) = Some False)
     \<and> (get_field b ''wantsAutomation'' = JUndefined \<longrightarrow>
          \<not> wantsAutomation l
          \<and> map_option wantsAutomation (read_lead (JSON_stringify l)) = Some False)"
proof -
  from lead_handler_ok [OF assms] obtain l where
    l: "build_lead e b = Inr l"
    and s': "s' = s\<lparr>dir_exists := True, leads_file := leads_file s @ JSON_stringify l @ [0x0A]\<rparr>"
    by blast
  from s' have f: "leads_file s' = leads_file s @ JSON_stringify l @ [0x0A]" by simp
  have n: "0x0A \<notin> set (JSON_stringify l)" by (rule JSON_stringify_no_newline)
  have r: "read_lead (JSON_stringify l) = Some l" by (rule read_lead_JSON_stringify)
  have m: "wantsMvp l = truthy (get_field b ''wantsMvp'')"
    by (rule build_lead_fields(9) [OF l])
  have a: "wantsAutomation l = truthy (get_field b ''wantsAutomation'')"
    by (rule build_lead_fields(10) [OF l])
  have rm: "map_option wantsMvp (read_lead (JSON_stringify l))
      = Some (truthy (get_field b ''wantsMvp''))"
    by (simp only: r option.map m)
  have ra: "map_option wantsAutomation (read_lead (JSON_stringify l))
      = Some (truthy (get_field b ''wantsAutomation''))"
    by (simp only: r option.map a)
  have t: "truthy (JStr (ascii ''false''))" by (simp add: ascii_def)
  have u: "\<not> truthy JUndefined" by simp
  have mt: "wantsMvp l \<and> map_option wantsMvp (read_lead (JSON_stringify l)) = Some True"
    if "get_field b ''wantsMvp'' = JStr (ascii ''false'')"
    using t by (simp only: rm m that)
  have at: "wantsAutomation l
      \<and> map_option wantsAutomation (read_lead (JSON_stringify l)) = Some True"
    if "get_field b ''wantsAutomation'' = JStr (ascii ''false'')"
    using t by (simp only: ra a that)
  have mf: "\<not> wantsMvp l \<and> map_option wantsMvp (read_lead (JSON_stringify l)) = Some False"
    if "get_field b ''wantsMvp'' = JUndefined"
    using u by (simp only: rm m that) simp
  have af: "\<not> wantsAutomation l
      \<and> map_option wantsAutomation (read_lead (JSON_stringify l)) = Some False"
    if "get_field b ''wantsAutomation'' = JUndefined"
    using u by (simp only: ra a that) simp
  from l f n rm ra m a mt at mf af show ?thesis by blast
qed

theorem wants_flags_truthiness_witness:
  "lead_handler fresh_server example_env (lead_body (JStr (ascii ''Handel'')) wants_false)
     = (\<lparr> lastHitByIp = Map.empty, dir_exists = True,
          leads_file = JSON_stringify (example_lead (ascii ''Handel'') True) @ [0x0A] \<rparr>,
        Json 200 OkBody)
   \<and> get_field (lead_body (JStr (ascii ''Handel'')) wants_false) ''wantsMvp'' = JStr (ascii ''false'')
   \<and> map_option wantsMvp (read_lead (JSON_stringify (example_lead (ascii ''Handel'') True)))
       = Some True
   \<and> map_option wantsAutomation (read_lead (JSON_stringify (example_lead (ascii ''Handel'') True)))
       = Some False"
proof -
  let ?b = "lead_body (JStr (ascii ''Handel'')) wants_false"
  let ?l = "example_lead (ascii ''Handel'') True"
  let ?s' = "\<lparr> lastHitByIp = Map.empty, dir_exists = True,
          leads_file = JSON_stringify ?l @ [0x0A] \<rparr>"
  have sf: "safe (JStr (ascii ''Handel'')) 80 = Inr (ascii ''Handel'')"
    by (simp add: safe_def coerce_def safe_str_def trim_def slice0_def ascii_def is_ws_def)
  have bl: "build_lead example_env ?b = Inr ?l"
    by (rule build_lead_example(2) [OF sf])
  have h: "lead_handler fresh_server example_env ?b = (?s', Json 200 OkBody)"
    by (simp add: lead_handler_def required_ok_example bl)
       (simp add: example_env_def fresh_server_def ascii_def)
  have g: "get_field ?b ''wantsMvp'' = JStr (ascii ''false'')"
    and g': "get_field ?b ''wantsAutomation'' = JUndefined"
    by (simp_all add: get_field_optional)
  from wants_flags_truthiness [OF h] obtain l where
    l: "build_lead example_env ?b = Inr l"
    and m: "get_field ?b ''wantsMvp'' = JStr (ascii ''false'') \<longrightarrow>
          wantsMvp l \<and> map_option wantsMvp (read_lead (JSON_stringify l)) = Some True"
    and a: "get_field ?b ''wantsAutomation'' = JUndefined \<longrightarrow>
          \<not> wantsAutomation l
          \<and> map_option wantsAutomation (read_lead (JSON_stringify l)) = Some False"
    by blast
  from l bl have "l = ?l" by simp
  with m a g g' h show ?thesis by simp
qed

end
